theory Spec2Isabelle
  imports Complex_Main "HOL-Library.Multiset" "HOL-Library.Log_Nat"
begin

section \<open>Exceptions of the analyzer as values\<close>

text \<open>
  Every \<^verbatim>\<open>raise\<close> of \<^verbatim>\<open>log_analyzer.py\<close>, and every exception a builtin can raise on the
  paths modelled here, is a constructor of \<open>error\<close>. A function that can raise returns
  \<open>error + 'a\<close>, with \<open>Inl\<close> for the exception.
\<close>

datatype error =
    ValueError string
  | RuntimeError string
  | ZeroDivisionError
  | IndexError
  | KeyError
  | TypeError

section \<open>The line grammar: \<^verbatim>\<open>log_pattern\<close> and \<^verbatim>\<open>Pattern.match\<close>\<close>

text \<open>
  \<^verbatim>\<open>log_pattern\<close> is a flat sequence of single-character classes, each with a quantifier,
  some of them inside a named group. A token of the model is such a class with its
  quantifier and the name of the group it stands in (if any). Lines are strings of 8-bit
  characters, read as the code points 0 to 255; there \<^verbatim>\<open>\d\<close> is \<^verbatim>\<open>[0-9]\<close>, \<^verbatim>\<open>\s\<close> is the
  white space of \<^verbatim>\<open>str.isspace\<close>, and \<^verbatim>\<open>.\<close> is any character but the line feed.
\<close>

datatype cc = Digit | DigitOrDot | Space | NonSpace | AnyChar | Lit char

datatype quant = One | Star | Plus | LazyStar

type_synonym tok = "string option \<times> cc \<times> quant"

definition is_digit :: "char \<Rightarrow> bool" where
  "is_digit c = (c \<in> set ''0123456789'')"

definition is_space :: "char \<Rightarrow> bool" where
  "is_space c = (c \<in> set [CHR 0x09, CHR 0x0A, CHR 0x0B, CHR 0x0C, CHR 0x0D, CHR 0x1C,
                            CHR 0x1D, CHR 0x1E, CHR 0x1F, CHR 0x20, CHR 0x85, CHR 0xA0])"

fun cls :: "cc \<Rightarrow> char \<Rightarrow> bool" where
  "cls Digit c = is_digit c"
| "cls DigitOrDot c = (is_digit c \<or> c = CHR ''.'')"
| "cls Space c = is_space c"
| "cls NonSpace c = (\<not> is_space c)"
| "cls AnyChar c = (c \<noteq> CHR 0x0A)"
| "cls (Lit a) c = (c = a)"

text \<open>
  \<open>splits p s\<close> lists the ways of cutting a run of \<open>p\<close>-characters off the front of
  \<open>s\<close>, the shortest run first. A backtracking matcher tries them in this order for a
  lazy quantifier and in the reverse order for a greedy one.
\<close>

fun splits :: "(char \<Rightarrow> bool) \<Rightarrow> string \<Rightarrow> (string \<times> string) list" where
  "splits p [] = [([], [])]"
| "splits p (x # xs) =
     ([], x # xs) # (if p x then map (\<lambda>(a, b). (x # a, b)) (splits p xs) else [])"

fun candidates :: "quant \<Rightarrow> (char \<Rightarrow> bool) \<Rightarrow> string \<Rightarrow> (string \<times> string) list" where
  "candidates One p s = (case s of [] \<Rightarrow> [] | x # xs \<Rightarrow> if p x then [([x], xs)] else [])"
| "candidates LazyStar p s = splits p s"
| "candidates Star p s = rev (splits p s)"
| "candidates Plus p s = rev (tl (splits p s))"

fun first_some :: "('a \<Rightarrow> 'b option) \<Rightarrow> 'a list \<Rightarrow> 'b option" where
  "first_some f [] = None"
| "first_some f (x # xs) = (case f x of Some r \<Rightarrow> Some r | None \<Rightarrow> first_some f xs)"

text \<open>
  \<^verbatim>\<open>Pattern.match\<close>: the pattern is tried at the start of the line only, nothing anchors
  its end. The result is the text each token consumed, in the first way of matching the
  backtracking search finds; \<open>None\<close> is Python's \<^verbatim>\<open>None\<close> (no match).
\<close>

fun re_match :: "tok list \<Rightarrow> string \<Rightarrow> string list option" where
  "re_match [] s = Some []"
| "re_match ((g, c, q) # ts) s =
     first_some (\<lambda>(a, b). map_option ((#) a) (re_match ts b)) (candidates q (cls c) s)"

text \<open>
  The pattern of the source, one line of the model for each line of the regular expression:
  \<^verbatim>\<open>(?P<remote_addr>[\d\.]+)\s\<close>,
  \<^verbatim>\<open>(?P<remote_user>\S*)\s+\<close>,
  \<^verbatim>\<open>(?P<http_x_real_ip>\S*)\s\<close>,
  \<^verbatim>\<open>\[(?P<time_local>.*?)\]\s\<close>,
  \<^verbatim>\<open>\"\<close>,
  \<^verbatim>\<open>(?P<request_method>.*?)\s\<close>,
  \<^verbatim>\<open>(?P<request_url>.*?)\s\<close>,
  \<^verbatim>\<open>(?P<request_protocol>.*?)\<close>,
  \<^verbatim>\<open>\"\s\<close>,
  \<^verbatim>\<open>(?P<status>\d+)\s\<close>,
  \<^verbatim>\<open>(?P<body_bytes_sent>\S*)\s\<close>,
  \<^verbatim>\<open>"(?P<http_referer>.*?)"\s\<close>,
  \<^verbatim>\<open>"(?P<http_user_agent>.*?)"\s\<close>,
  \<^verbatim>\<open>"(?P<http_x_forwarded_for>.*?)"\s\<close>,
  \<^verbatim>\<open>"(?P<http_X_REQUEST_ID>.*?)"\s\<close>,
  \<^verbatim>\<open>"(?P<http_X_RB_USER>.*?)"\s\<close>,
  \<^verbatim>\<open>(?P<request_time>\d+\.\d+)\s*\<close>.
  The double quote is the character \<open>0x22\<close>.
\<close>

definition log_pattern :: "tok list" where
  "log_pattern =
   [ (Some ''remote_addr'', DigitOrDot, Plus), (None, Space, One),
     (Some ''remote_user'', NonSpace, Star), (None, Space, Plus),
     (Some ''http_x_real_ip'', NonSpace, Star), (None, Space, One),
     (None, Lit CHR ''['', One), (Some ''time_local'', AnyChar, LazyStar),
       (None, Lit CHR '']'', One), (None, Space, One),
     (None, Lit CHR 0x22, One),
     (Some ''request_method'', AnyChar, LazyStar), (None, Space, One),
     (Some ''request_url'', AnyChar, LazyStar), (None, Space, One),
     (Some ''request_protocol'', AnyChar, LazyStar),
     (None, Lit CHR 0x22, One), (None, Space, One),
     (Some ''status'', Digit, Plus), (None, Space, One),
     (Some ''body_bytes_sent'', NonSpace, Star), (None, Space, One),
     (None, Lit CHR 0x22, One), (Some ''http_referer'', AnyChar, LazyStar),
       (None, Lit CHR 0x22, One), (None, Space, One),
     (None, Lit CHR 0x22, One), (Some ''http_user_agent'', AnyChar, LazyStar),
       (None, Lit CHR 0x22, One), (None, Space, One),
     (None, Lit CHR 0x22, One), (Some ''http_x_forwarded_for'', AnyChar, LazyStar),
       (None, Lit CHR 0x22, One), (None, Space, One),
     (None, Lit CHR 0x22, One), (Some ''http_X_REQUEST_ID'', AnyChar, LazyStar),
       (None, Lit CHR 0x22, One), (None, Space, One),
     (None, Lit CHR 0x22, One), (Some ''http_X_RB_USER'', AnyChar, LazyStar),
       (None, Lit CHR 0x22, One), (None, Space, One),
     (Some ''request_time'', Digit, Plus), (Some ''request_time'', Lit CHR ''.'', One),
       (Some ''request_time'', Digit, Plus), (None, Space, Star) ]"

text \<open>
  \<^verbatim>\<open>match.groupdict()\<close>: every group name with the text its tokens consumed, in the
  order of the groups in the pattern.
\<close>

type_synonym groupdict = "(string \<times> string) list"

definition group_value :: "tok list \<Rightarrow> string list \<Rightarrow> string \<Rightarrow> string" where
  "group_value ts segs n = concat (map snd (filter (\<lambda>(t, a). fst t = Some n) (zip ts segs)))"

definition groupdict :: "tok list \<Rightarrow> string list \<Rightarrow> groupdict" where
  "groupdict ts segs =
     map (\<lambda>n. (n, group_value ts segs n)) (remdups (List.map_filter fst ts))"

definition log_match :: "string \<Rightarrow> groupdict option" where
  "log_match line = map_option (groupdict log_pattern) (re_match log_pattern line)"

section \<open>The line stream processor: \<^verbatim>\<open>parse_lines\<close>\<close>

text \<open>
  Python divides the two counters as floating-point numbers; \<open>is_too_many_missed_lines\<close>
  divides them as rationals, exactly. \<^verbatim>\<open>missed / total\<close> raises \<^verbatim>\<open>ZeroDivisionError\<close> when
  \<^verbatim>\<open>total\<close> (here \<open>total'\<close>) is 0. At the threshold 30, the only one \<^verbatim>\<open>parse_lines\<close> uses,
  the exact comparison and the one in double precision (\<open>is_too_many_missed_lines_fl\<close>
  below) agree for every log of at most \<open>10\<^sup>1\<^sup>5\<close> lines; at other thresholds the
  rounding of the product can move the boundary (57 of 100 lines give
  56.99999999999999 in Python).
\<close>

definition is_too_many_missed_lines :: "int \<Rightarrow> int \<Rightarrow> int \<Rightarrow> error + bool" where
  "is_too_many_missed_lines missed total' limit_perc =
     (if total' = 0 then Inl ZeroDivisionError
      else let missed_perc = (rat_of_int missed / rat_of_int total') * 100
           in Inr (missed_perc \<ge> rat_of_int limit_perc))"

text \<open>Rounding to the nearest integer, ties going to the even one.\<close>

definition round_half_even :: "rat \<Rightarrow> int" where
  "round_half_even y =
     (let f = \<lfloor>y\<rfloor>; d = y - of_int f
      in if d < 1 / 2 then f else if 1 / 2 < d then f + 1 else if even f then f else f + 1)"




text \<open>The default of the parameter \<^verbatim>\<open>limit_perc\<close>.\<close>

definition limit_perc_default :: int where
  "limit_perc_default = 30"

text \<open>
  The \<^verbatim>\<open>for\<close> loop of \<^verbatim>\<open>parse_lines\<close>, with its state: the two counters and the
  records yielded so far.
\<close>

fun parse_loop :: "string list \<Rightarrow> int \<times> int \<times> groupdict list \<Rightarrow> int \<times> int \<times> groupdict list" where
  "parse_loop [] st = st"
| "parse_loop (line # lines) (missed_count, total_lines, yielded) =
     (case log_match line of
        None \<Rightarrow> parse_loop lines (missed_count + 1, total_lines + 1, yielded)
      | Some m \<Rightarrow> parse_loop lines (missed_count, total_lines + 1, yielded @ [m]))"

text \<open>
  \<^verbatim>\<open>parse_lines\<close> is a generator. A consumer that drains it receives the yielded records
  and then either the end of the iteration (\<open>None\<close>) or the exception raised after the
  loop (\<open>Some e\<close>). The call of \<^verbatim>\<open>is_too_many_missed_lines\<close> passes no \<^verbatim>\<open>limit_perc\<close>.
\<close>

definition parse_lines :: "string list \<Rightarrow> groupdict list \<times> error option" where
  "parse_lines lines =
     (let (missed_count, total_lines, yielded) = parse_loop lines (0, 0, [])
      in if total_lines = 0 then (yielded, Some (ValueError ''Log file is empty.''))
         else (case is_too_many_missed_lines missed_count total_lines limit_perc_default of
                 Inl e \<Rightarrow> (yielded, Some e)
               | Inr True \<Rightarrow> (yielded, Some (RuntimeError ''Too many missed lines. Aborted.''))
               | Inr False \<Rightarrow> (yielded, None)))"

section \<open>The aggregator: \<^verbatim>\<open>collect_times_for_urls\<close>\<close>

text \<open>
  Python's floating-point numbers are modelled as rationals, with exact arithmetic:
  the model leaves out the rounding of each floating-point operation, infinities and NaN.

  \<^verbatim>\<open>float(s)\<close> is modelled on the strings the grammar captures as \<^verbatim>\<open>request_time\<close>,
  digits with an optional fraction, the only strings that reach the call; on every
  other string the model returns \<^verbatim>\<open>ValueError\<close>, as \<^verbatim>\<open>float\<close> does on a string that is
  no number (the signs, exponents and names \<^verbatim>\<open>float\<close> accepts as well are not modelled).
\<close>

definition digit_val :: "char \<Rightarrow> nat" where
  "digit_val c = of_char c - 48"

definition digits_val :: "string \<Rightarrow> nat" where
  "digits_val ds = foldl (\<lambda>n c. 10 * n + digit_val c) 0 ds"

definition py_float :: "string \<Rightarrow> error + rat" where
  "py_float s =
     (let ip = takeWhile is_digit s; r = dropWhile is_digit s
      in case r of
           [] \<Rightarrow> if ip = [] then Inl (ValueError ''could not convert string to float'')
                 else Inr (of_nat (digits_val ip))
         | c # fp \<Rightarrow>
             if c = CHR ''.'' \<and> list_all is_digit fp \<and> (ip \<noteq> [] \<or> fp \<noteq> [])
             then Inr (of_nat (digits_val ip) + of_nat (digits_val fp) / 10 ^ length fp)
             else Inl (ValueError ''could not convert string to float''))"

text \<open>
  \<^verbatim>\<open>url_times\<close> is a \<^verbatim>\<open>defaultdict(list)\<close>: a dictionary that keeps its keys in the order
  of their first insertion, here an association list with one entry for each key.
  \<open>append_time\<close> is \<^verbatim>\<open>url_times[url].append(t)\<close>.
\<close>

type_synonym times_map = "(string \<times> rat list) list"

fun append_time :: "times_map \<Rightarrow> string \<Rightarrow> rat \<Rightarrow> times_map" where
  "append_time [] u t = [(u, [t])]"
| "append_time ((k, ts) # m) u t =
     (if k = u then (k, ts @ [t]) # m else (k, ts) # append_time m u t)"

fun collect_loop :: "groupdict list \<Rightarrow> times_map \<Rightarrow> error + times_map" where
  "collect_loop [] url_times = Inr url_times"
| "collect_loop (request_line # rest) url_times =
     (case map_of request_line ''request_url'' of
        None \<Rightarrow> Inl KeyError
      | Some u \<Rightarrow>
          (case map_of request_line ''request_time'' of
             None \<Rightarrow> Inl KeyError
           | Some rt \<Rightarrow>
               (case py_float rt of
                  Inl e \<Rightarrow> Inl e
                | Inr t \<Rightarrow> collect_loop rest (append_time url_times u t))))"

text \<open>
  The argument is the drained generator: the records it yields and how it ends. An
  exception at its end leaves \<^verbatim>\<open>collect_times_for_urls\<close> before the \<^verbatim>\<open>return\<close>.
\<close>

definition collect_times_for_urls :: "groupdict list \<times> error option \<Rightarrow> error + times_map" where
  "collect_times_for_urls parsed_log =
     (case collect_loop (fst parsed_log) [] of
        Inl e \<Rightarrow> Inl e
      | Inr url_times \<Rightarrow> (case snd parsed_log of Some e \<Rightarrow> Inl e | None \<Rightarrow> Inr url_times))"

section \<open>The statistics engine: \<^verbatim>\<open>calc_median\<close> and \<^verbatim>\<open>analyze_requests\<close>\<close>

text \<open>\<^verbatim>\<open>xs[i]\<close>: a negative index counts from the end, an index out of range raises.\<close>

definition py_index :: "'a list \<Rightarrow> int \<Rightarrow> error + 'a" where
  "py_index xs i =
     (if 0 \<le> i \<and> i < int (length xs) then Inr (xs ! nat i)
      else if i < 0 \<and> - int (length xs) \<le> i then Inr (xs ! nat (int (length xs) + i))
      else Inl IndexError)"

definition calc_median :: "rat list \<Rightarrow> error + rat" where
  "calc_median numbers =
     (let sorted_nums = sort numbers;
          nums_count = int (length sorted_nums)
      in if nums_count mod 2 = 1 then py_index sorted_nums (nums_count div 2)
         else let i = nums_count div 2
              in case py_index sorted_nums (i - 1) of
                   Inl e \<Rightarrow> Inl e
                 | Inr a \<Rightarrow>
                     (case py_index sorted_nums i of
                        Inl e \<Rightarrow> Inl e
                      | Inr b \<Rightarrow> Inr ((a + b) / 2)))"

text \<open>
  The builtins \<^verbatim>\<open>sum\<close>, \<^verbatim>\<open>max\<close> and \<^verbatim>\<open>round(x, ndigits)\<close> (ties go to the even digit), on
  exact rationals: Python's \<^verbatim>\<open>round\<close> sees the binary value of the float, which at a
  decimal tie such as 1.1555 lies on one side of it, so the last digit can differ there.
\<close>

definition py_sum :: "rat list \<Rightarrow> rat" where
  "py_sum xs = foldl (+) 0 xs"

definition py_max :: "rat list \<Rightarrow> error + rat" where
  "py_max xs =
     (case xs of
        [] \<Rightarrow> Inl (ValueError ''max() arg is an empty sequence'')
      | x # ys \<Rightarrow> Inr (foldl max x ys))"

definition py_round :: "rat \<Rightarrow> nat \<Rightarrow> rat" where
  "py_round x ndigits = of_int (round_half_even (x * 10 ^ ndigits)) / 10 ^ ndigits"

record url_stats =
  url :: string
  count :: nat
  count_perc :: rat
  time_sum :: rat
  time_perc :: rat
  time_avg :: rat
  time_max :: rat
  time_med :: rat

text \<open>The first loop of \<^verbatim>\<open>analyze_requests\<close>: \<^verbatim>\<open>total_count\<close> and \<^verbatim>\<open>total_time\<close>.\<close>

definition totals :: "times_map \<Rightarrow> nat \<times> rat" where
  "totals times_map =
     foldl (\<lambda>(total_count, total_time) times.
              (total_count + length times, total_time + py_sum times))
           (0, 0) (map snd times_map)"

text \<open>
  The body of the second loop. \<^verbatim>\<open>max(times)\<close> is evaluated before the dictionary; the
  fields are evaluated in the order of the source, each division raising
  \<^verbatim>\<open>ZeroDivisionError\<close> on a zero divisor.
\<close>

definition analyze_one :: "nat \<Rightarrow> rat \<Rightarrow> string \<times> rat list \<Rightarrow> error + url_stats" where
  "analyze_one total_count total_time = (\<lambda>(u, times).
     let requests_len = length times;
         sum_times = py_sum times
     in case py_max times of
          Inl e \<Rightarrow> Inl e
        | Inr max_times \<Rightarrow>
            let ndigits = 3
            in if total_count = 0 then Inl ZeroDivisionError
               else if total_time = 0 then Inl ZeroDivisionError
               else if requests_len = 0 then Inl ZeroDivisionError
               else case calc_median times of
                      Inl e \<Rightarrow> Inl e
                    | Inr med \<Rightarrow>
                        Inr \<lparr> url = u,
                              count = length times,
                              count_perc = py_round (100 * of_nat requests_len / of_nat total_count) ndigits,
                              time_sum = py_round sum_times ndigits,
                              time_perc = py_round (100 * sum_times / total_time) ndigits,
                              time_avg = py_round (sum_times / of_nat requests_len) ndigits,
                              time_max = py_round max_times ndigits,
                              time_med = py_round med ndigits \<rparr>)"

fun analyze_loop :: "nat \<Rightarrow> rat \<Rightarrow> times_map \<Rightarrow> url_stats list \<Rightarrow> error + url_stats list" where
  "analyze_loop total_count total_time [] analyzed_requests = Inr analyzed_requests"
| "analyze_loop total_count total_time (item # items) analyzed_requests =
     (case analyze_one total_count total_time item of
        Inl e \<Rightarrow> Inl e
      | Inr r \<Rightarrow> analyze_loop total_count total_time items (analyzed_requests @ [r]))"

definition analyze_requests :: "times_map \<Rightarrow> error + url_stats list" where
  "analyze_requests times_map =
     (let (total_count, total_time) = totals times_map
      in analyze_loop total_count total_time times_map [])"

section \<open>The ranker: \<^verbatim>\<open>sort_requests_by_time_sum\<close> and the slice of \<^verbatim>\<open>main\<close>\<close>

text \<open>
  \<^verbatim>\<open>list.sort(key=..., reverse=True)\<close> reverses the list, sorts it with a stable sort in
  ascending order of the key, and reverses the result.
\<close>

definition sort_requests_by_time_sum :: "url_stats list \<Rightarrow> url_stats list" where
  "sort_requests_by_time_sum analyzed_requests = rev (sort_key time_sum (rev analyzed_requests))"

text \<open>\<^verbatim>\<open>xs[:n]\<close>: a negative \<open>n\<close> counts from the end.\<close>

definition py_slice_to :: "'a list \<Rightarrow> int \<Rightarrow> 'a list" where
  "py_slice_to xs n = (if n < 0 then take (nat (int (length xs) + n)) xs else take (nat n) xs)"

section \<open>The configuration and \<^verbatim>\<open>main\<close>\<close>

datatype jvalue = JInt int | JStr string

type_synonym config = "string \<rightharpoonup> jvalue"

definition DEFAULT_CONFIG :: config where
  "DEFAULT_CONFIG =
     [''REPORT_SIZE'' \<mapsto> JInt 1000,
      ''REPORT_DIR'' \<mapsto> JStr ''./reports'',
      ''LOG_DIR'' \<mapsto> JStr ''./var/log'',
      ''SCRIPT_LOG'' \<mapsto> JStr ''./var/log/script_log'']"

text \<open>
  \<^verbatim>\<open>set_config\<close>, on the custom configuration already read from its file (\<open>None\<close>: no
  file was given).
\<close>

definition set_config :: "config option \<Rightarrow> config" where
  "set_config custom_config =
     DEFAULT_CONFIG ++ (case custom_config of None \<Rightarrow> Map.empty | Some c \<Rightarrow> c)"

text \<open>
  \<^verbatim>\<open>main\<close> from the lines of the latest log on, for a log that was found and has no
  report yet: the result is the list handed to \<^verbatim>\<open>create_report_for_log\<close>. Finding the
  log, the logger and the writing of the report are left out.
\<close>

definition main :: "config option \<Rightarrow> string list \<Rightarrow> error + url_stats list" where
  "main custom_config log_lines =
     (let config = set_config custom_config;
          parsed_lines = parse_lines log_lines
      in case collect_times_for_urls parsed_lines of
           Inl e \<Rightarrow> Inl e
         | Inr times_map \<Rightarrow>
             (case analyze_requests times_map of
                Inl e \<Rightarrow> Inl e
              | Inr analyzed_requests \<Rightarrow>
                  let sorted_requests = sort_requests_by_time_sum analyzed_requests
                  in case config ''REPORT_SIZE'' of
                       None \<Rightarrow> Inl KeyError
                     | Some (JStr v) \<Rightarrow> Inl TypeError
                     | Some (JInt n) \<Rightarrow> Inr (py_slice_to sorted_requests n)))"

section \<open>Notions of the specification\<close>

text \<open>
  The number of unmatched lines of a stream, the records of its matched lines and the
  percentage of its unmatched lines, each defined on the whole stream at once.
\<close>

definition unmatched_count :: "string list \<Rightarrow> nat" where
  "unmatched_count lines = length (filter (\<lambda>l. log_match l = None) lines)"

definition matched_records :: "string list \<Rightarrow> groupdict list" where
  "matched_records lines = List.map_filter log_match lines"

definition unmatched_perc :: "string list \<Rightarrow> rat" where
  "unmatched_perc lines = (of_nat (unmatched_count lines) / of_nat (length lines)) * 100"

text \<open>What a quantifier allows a token to consume.\<close>

fun quant_ok :: "quant \<Rightarrow> string \<Rightarrow> bool" where
  "quant_ok One a = (length a = 1)"
| "quant_ok Plus a = (a \<noteq> [])"
| "quant_ok Star a = True"
| "quant_ok LazyStar a = True"


text \<open>
  The statistical median of a sorted list: its middle element when the length is odd,
  the arithmetic mean of its two middle elements when the length is even.
\<close>

definition statistical_median :: "rat list \<Rightarrow> rat" where
  "statistical_median ys =
     (if odd (length ys) then ys ! (length ys div 2)
      else (ys ! (length ys div 2 - 1) + ys ! (length ys div 2)) / 2)"

text \<open>
  The statistics of one URL as the specification gives them: counts, sums, the maximum
  and the median of the samples, the shares of the totals over all URLs, each rounded to
  three decimal digits.
\<close>

definition total_count_of :: "times_map \<Rightarrow> nat" where
  "total_count_of m = sum_list (map (\<lambda>(u, times). length times) m)"

definition total_time_of :: "times_map \<Rightarrow> rat" where
  "total_time_of m = sum_list (map (\<lambda>(u, times). sum_list times) m)"

definition stats_of :: "times_map \<Rightarrow> string \<times> rat list \<Rightarrow> url_stats" where
  "stats_of m = (\<lambda>(u, times).
     \<lparr> url = u,
       count = length times,
       count_perc = py_round (100 * of_nat (length times) / of_nat (total_count_of m)) 3,
       time_sum = py_round (sum_list times) 3,
       time_perc = py_round (100 * sum_list times / total_time_of m) 3,
       time_avg = py_round (sum_list times / of_nat (length times)) 3,
       time_max = py_round (Max (set times)) 3,
       time_med = py_round (statistical_median (sort times)) 3 \<rparr>)"

text \<open>The sums of the two percentages over the records of a result.\<close>

definition perc_sums :: "error + url_stats list \<Rightarrow> error + rat \<times> rat" where
  "perc_sums res =
     (case res of
        Inl e \<Rightarrow> Inl e
      | Inr rs \<Rightarrow> Inr (sum_list (map count_perc rs), sum_list (map time_perc rs)))"

text \<open>
  The last run of characters of a line that holds no white space, and the strings of the
  form \<^verbatim>\<open>\d+\.\d+\<close>: digits, a decimal point, digits, and nothing else.
\<close>

definition trailing_field :: "string \<Rightarrow> string" where
  "trailing_field line = rev (takeWhile (\<lambda>c. \<not> is_space c) (rev line))"

definition is_decimal_form :: "string \<Rightarrow> bool" where
  "is_decimal_form s =
     (let a = takeWhile is_digit s; r = dropWhile is_digit s
      in a \<noteq> [] \<and> (case r of [] \<Rightarrow> False | c # b \<Rightarrow> c = CHR ''.'' \<and> b \<noteq> [] \<and> list_all is_digit b))"

text \<open>What a token may consume: characters of its class, as many as its quantifier allows.\<close>

definition tok_ok :: "tok \<Rightarrow> string \<Rightarrow> bool" where
  "tok_ok t a = (case t of (g, c, q) \<Rightarrow> list_all (cls c) a \<and> quant_ok q a)"

section \<open>The matcher finds a match whenever there is one\<close>

lemma splits_set: "set (splits p s) = {(a, b). s = a @ b \<and> list_all p a}"
proof (induction s)
  case Nil
  then show ?case by auto
next
  case (Cons x xs)
  show ?case
  proof (rule set_eqI, clarify)
    fix a b
    show "((a, b) \<in> set (splits p (x # xs))) = ((a, b) \<in> {(a, b). x # xs = a @ b \<and> list_all p a})"
      using Cons by (cases a) (auto simp: image_iff)
  qed
qed

lemma splits_tl_set: "set (tl (splits p s)) = {(a, b). s = a @ b \<and> list_all p a \<and> a \<noteq> []}"
proof (cases s)
  case Nil
  then show ?thesis by auto
next
  case (Cons x xs)
  show ?thesis
  proof (rule set_eqI, clarify)
    fix a b
    show "((a, b) \<in> set (tl (splits p s))) = ((a, b) \<in> {(a, b). s = a @ b \<and> list_all p a \<and> a \<noteq> []})"
      using Cons splits_set[of p xs] by (cases a) (auto simp: image_iff)
  qed
qed

lemma candidates_set:
  "set (candidates q p s) = {(a, b). s = a @ b \<and> list_all p a \<and> quant_ok q a}"
proof (cases q)
  case One
  show ?thesis
  proof (rule set_eqI, clarify)
    fix a b
    show "((a, b) \<in> set (candidates q p s)) = ((a, b) \<in> {(a, b). s = a @ b \<and> list_all p a \<and> quant_ok q a})"
      using One by (cases s; cases a) (auto simp: length_Suc_conv)
  qed
qed (auto simp: splits_set splits_tl_set)

lemma first_some_None_iff: "first_some f xs = None \<longleftrightarrow> (\<forall>x \<in> set xs. f x = None)"
  by (induction xs) (auto split: option.splits)

lemma first_some_SomeD: "first_some f xs = Some r \<Longrightarrow> \<exists>x \<in> set xs. f x = Some r"
  by (induction xs) (auto split: option.splits)

lemma re_match_append: "re_match ts s \<noteq> None \<Longrightarrow> re_match ts (s @ u) \<noteq> None"
proof (induction ts arbitrary: s)
  case Nil
  then show ?case by simp
next
  case (Cons t ts)
  obtain g c q where t: "t = (g, c, q)" by (cases t)
  from Cons.prems obtain a b where ab: "(a, b) \<in> set (candidates q (cls c) s)"
    and m: "re_match ts b \<noteq> None"
    by (auto simp: t first_some_None_iff)
  from ab have "(a, b @ u) \<in> set (candidates q (cls c) (s @ u))"
    by (auto simp: candidates_set)
  moreover from m have "re_match ts (b @ u) \<noteq> None" by (rule Cons.IH)
  ultimately have "\<exists>x \<in> set (candidates q (cls c) (s @ u)).
      (case x of (a, b) \<Rightarrow> map_option ((#) a) (re_match ts b)) \<noteq> None"
    by (intro bexI[of _ "(a, b @ u)"]) simp_all
  then show ?case
    unfolding t re_match.simps first_some_None_iff by auto
qed

lemma re_match_sound:
  "re_match ts s = Some segs \<Longrightarrow>
     list_all2 (\<lambda>(g, c, q) a. list_all (cls c) a \<and> quant_ok q a) ts segs \<and> (\<exists>rest. s = concat segs @ rest)"
proof (induction ts arbitrary: s segs)
  case Nil
  then show ?case by simp
next
  case (Cons t ts)
  obtain g c q where t: "t = (g, c, q)" by (cases t)
  from Cons.prems obtain a b segs' where ab: "(a, b) \<in> set (candidates q (cls c) s)"
    and m: "re_match ts b = Some segs'" and segs: "segs = a # segs'"
    by (auto simp: t dest!: first_some_SomeD)
  from Cons.IH[OF m] ab show ?case
    by (auto simp: t segs candidates_set)
qed


section \<open>Properties of the line stream processor\<close>

lemma parse_loop_eq:
  "parse_loop lines (m, t, y) =
     (m + int (unmatched_count lines), t + int (length lines), y @ matched_records lines)"
  by (induction lines arbitrary: m t y)
     (auto simp: unmatched_count_def matched_records_def List.map_filter_simps split: option.splits)

lemma parse_lines_yielded: "fst (parse_lines lines) = matched_records lines"
  by (simp add: parse_lines_def parse_loop_eq split: sum.splits bool.splits)

lemma parse_lines_empty: "parse_lines [] = ([], Some (ValueError ''Log file is empty.''))"
  by (simp add: parse_lines_def)

lemma parse_lines_outcome:
  assumes "lines \<noteq> []"
  shows "snd (parse_lines lines) =
           (if unmatched_perc lines \<ge> 30 then Some (RuntimeError ''Too many missed lines. Aborted.'') else None)"
  using assms
  by (simp add: parse_lines_def parse_loop_eq is_too_many_missed_lines_def limit_perc_default_def
      unmatched_perc_def Let_def)

text \<open>
  Claim C4. Draining \<^verbatim>\<open>parse_lines\<close> ends in \<^verbatim>\<open>ValueError('Log file is empty.')\<close> exactly
  when the stream has no line. A stream with lines, none of which matches, yields no
  record and ends in the error of the tolerance check instead.
\<close>

theorem parse_lines_empty_input:
  "(snd (parse_lines lines) = Some (ValueError ''Log file is empty.'') \<longleftrightarrow> lines = [])
   \<and> (lines \<noteq> [] \<and> (\<forall>l \<in> set lines. log_match l = None)
        \<longrightarrow> parse_lines lines = ([], Some (RuntimeError ''Too many missed lines. Aborted.'')))"
proof (cases "lines = []")
  case True
  then show ?thesis by (simp add: parse_lines_empty)
next
  case False
  have out: "snd (parse_lines lines) \<noteq> Some (ValueError ''Log file is empty.'')"
    using parse_lines_outcome[OF False] by simp
  have all: "parse_lines lines = ([], Some (RuntimeError ''Too many missed lines. Aborted.''))"
    if un: "\<forall>l \<in> set lines. log_match l = None"
  proof -
    from un have f: "filter (\<lambda>l. log_match l = None) lines = lines" by (simp add: filter_id_conv)
    have c: "unmatched_perc lines = 100"
      using False by (simp add: unmatched_perc_def unmatched_count_def f)
    from un have "matched_records lines = []"
      unfolding matched_records_def by (induction lines) (simp_all add: List.map_filter_simps)
    with parse_lines_yielded[of lines] parse_lines_outcome[OF False] c show ?thesis
      by (simp add: prod_eq_iff)
  qed
  from False out all show ?thesis by simp
qed

theorem parse_lines_empty_input_witness:
  "snd (parse_lines []) = Some (ValueError ''Log file is empty.'')
   \<and> parse_lines [''no log line'', ''not one either'']
       = ([], Some (RuntimeError ''Too many missed lines. Aborted.''))"
proof -
  have u1: "log_match ''no log line'' = None" by code_simp
  have u2: "log_match ''not one either'' = None" by code_simp
  from parse_lines_empty_input[of "[]"]
    parse_lines_empty_input[of "[''no log line'', ''not one either'']"] u1 u2
  show ?thesis by simp
qed

text \<open>
  Claim C10. A line that matches the grammar still matches with any text appended: the
  pattern is anchored at the start of the line only.
\<close>

theorem log_match_append:
  "log_match line \<noteq> None \<Longrightarrow> log_match (line @ suffix) \<noteq> None"
  using re_match_append[of log_pattern line suffix] by (simp add: log_match_def)

theorem log_match_append_witness:
  "log_match ''1.2.3.4 - - [29/Jun/2017:03:50:44 +0300] \"GET /a HTTP/1.1\" 200 5 \"-\" \"-\" \"-\" \"-\" \"-\" 0.767'' \<noteq> None
   \<and> log_match (''1.2.3.4 - - [29/Jun/2017:03:50:44 +0300] \"GET /a HTTP/1.1\" 200 5 \"-\" \"-\" \"-\" \"-\" \"-\" 0.767'' @ ''9 and any text'') \<noteq> None"
proof -
  have h: "log_match ''1.2.3.4 - - [29/Jun/2017:03:50:44 +0300] \"GET /a HTTP/1.1\" 200 5 \"-\" \"-\" \"-\" \"-\" \"-\" 0.767'' \<noteq> None"
    by code_simp
  from h log_match_append[OF h, of "''9 and any text''"] show ?thesis by simp
qed

section \<open>Properties of the statistics engine: the median\<close>

lemma calc_median_sort:
  assumes "numbers \<noteq> []"
  shows "calc_median numbers = Inr (statistical_median (sort numbers))"
proof -
  let ?s = "sort numbers"
  let ?n = "length ?s"
  have n: "?n > 0" using assms by simp
  show ?thesis
  proof (cases "odd ?n")
    case True
    then have m: "int ?n mod 2 = 1" by presburger
    have i: "0 \<le> int ?n div 2 \<and> int ?n div 2 < int ?n" using n by linarith
    have k: "nat (int ?n div 2) = ?n div 2" by linarith
    show ?thesis
      unfolding calc_median_def Let_def statistical_median_def py_index_def
      using True m i k by simp
  next
    case False
    then have m: "int ?n mod 2 \<noteq> 1" by presburger
    from False n have n2: "?n \<ge> 2" by presburger
    have i: "0 \<le> int ?n div 2 \<and> int ?n div 2 < int ?n" using n by linarith
    have j: "0 \<le> int ?n div 2 - 1 \<and> int ?n div 2 - 1 < int ?n" using n2 by linarith
    have k: "nat (int ?n div 2) = ?n div 2" by linarith
    have l: "nat (int ?n div 2 - 1) = ?n div 2 - 1" using n2 by linarith
    show ?thesis
      unfolding calc_median_def Let_def statistical_median_def py_index_def
      using False m i j k l by simp
  qed
qed

text \<open>
  Claim C2. For a list of samples that is not empty, \<^verbatim>\<open>calc_median\<close> returns the
  statistical median of the sorted samples, whichever sorted arrangement \<open>ys\<close> of them is
  taken: the middle element for an odd length, the mean of the two middle elements for
  an even one. The median of \<open>[1, 2, 3, 4, 5]\<close> is 3, that of \<open>[1, 2]\<close> is 1.5.
\<close>

theorem calc_median_statistical:
  "(numbers \<noteq> [] \<and> sorted ys \<and> mset ys = mset numbers
      \<longrightarrow> calc_median numbers = Inr (statistical_median ys))
   \<and> calc_median [1, 2, 3, 4, 5] = Inr 3
   \<and> calc_median [1, 2] = Inr (3 / 2)"
proof -
  have "calc_median numbers = Inr (statistical_median ys)"
    if "numbers \<noteq> []" "sorted ys" "mset ys = mset numbers"
  proof -
    from that have "sort numbers = ys"
      by (intro properties_for_sort) simp_all
    with calc_median_sort[OF that(1)] show ?thesis by simp
  qed
  moreover have "calc_median [1, 2, 3, 4, 5] = Inr 3"
    by (simp add: calc_median_sort statistical_median_def)
  moreover have "calc_median [1, 2] = Inr (3 / 2)"
    by (simp add: calc_median_sort statistical_median_def)
  ultimately show ?thesis by blast
qed

theorem calc_median_statistical_witness:
  "[4, 1, 3, 2] \<noteq> ([] :: rat list) \<and> sorted [1, 2, 3, 4 :: rat]
   \<and> mset [1, 2, 3, 4 :: rat] = mset [4, 1, 3, 2]
   \<and> calc_median [4, 1, 3, 2] = Inr (5 / 2)"
proof -
  have m: "mset [1, 2, 3, 4 :: rat] = mset [4, 1, 3, 2]" by (simp add: ac_simps)
  have s: "statistical_median [1, 2, 3, 4] = 5 / 2" by (simp add: statistical_median_def)
  from calc_median_statistical[of "[4, 1, 3, 2]" "[1, 2, 3, 4]"] m s show ?thesis by simp
qed

section \<open>Properties of the ranker\<close>






section \<open>Properties of the statistics engine: the records\<close>

lemma foldl_plus: "foldl (+) a xs = a + sum_list xs" for a :: rat
  by (induction xs arbitrary: a) (simp_all add: add.assoc)

lemma py_sum_eq: "py_sum xs = sum_list xs"
  by (simp add: py_sum_def foldl_plus)

lemma foldl_max: "foldl max x ys = Max (set (x # ys))" for x :: rat
proof (induction ys arbitrary: x)
  case Nil
  then show ?case by simp
next
  case (Cons y ys)
  have "Max (insert x (insert y (set ys))) = max (max x y) (Max (set (max x y # ys)))"
    by (cases "ys = []") (auto simp: max_def Max_insert)
  then show ?case using Cons[of "max x y"] by (simp add: max_def split: if_splits)
qed

lemma py_max_eq: "ts \<noteq> [] \<Longrightarrow> py_max ts = Inr (Max (set ts))"
  by (cases ts) (simp_all add: py_max_def foldl_max del: foldl_Cons)

lemma totals_foldl:
  "foldl (\<lambda>(total_count, total_time) times.
              (total_count + length times, total_time + py_sum times)) (c, t) xs
   = (c + sum_list (map length xs), t + sum_list (map sum_list xs))"
  by (induction xs arbitrary: c t) (simp_all add: py_sum_eq add.assoc)

lemma totals_eq: "totals m = (total_count_of m, total_time_of m)"
  using totals_foldl[of 0 0 "map snd m"]
  by (simp add: totals_def total_count_of_def total_time_of_def comp_def case_prod_unfold)

lemma analyze_one_ok:
  assumes "ts \<noteq> []" "c \<noteq> 0" "t \<noteq> 0"
  shows "analyze_one c t (u, ts) =
     Inr \<lparr> url = u,
       count = length ts,
       count_perc = py_round (100 * of_nat (length ts) / of_nat c) 3,
       time_sum = py_round (sum_list ts) 3,
       time_perc = py_round (100 * sum_list ts / t) 3,
       time_avg = py_round (sum_list ts / of_nat (length ts)) 3,
       time_max = py_round (Max (set ts)) 3,
       time_med = py_round (statistical_median (sort ts)) 3 \<rparr>"
  using assms
  by (simp add: analyze_one_def py_max_eq py_sum_eq calc_median_sort Let_def)

lemma analyze_one_Inr:
  assumes "analyze_one c t (u, ts) = Inr r"
  shows "ts \<noteq> [] \<and> c \<noteq> 0 \<and> t \<noteq> 0"
  using assms
  by (auto simp: analyze_one_def py_max_def Let_def split: list.splits sum.splits if_splits)

lemma analyze_loop_Inr:
  "analyze_loop c t items acc = Inr rs \<Longrightarrow>
     (\<exists>rs'. rs = acc @ rs' \<and> map Inr rs' = map (analyze_one c t) items)"
proof (induction items arbitrary: acc)
  case Nil
  then show ?case by simp
next
  case (Cons item items)
  from Cons.prems obtain r where r: "analyze_one c t item = Inr r"
    and l: "analyze_loop c t items (acc @ [r]) = Inr rs"
    by (auto split: sum.splits)
  from Cons.IH[OF l] obtain rs' where "rs = (acc @ [r]) @ rs'"
    "map Inr rs' = map (analyze_one c t) items" by blast
  with r show ?case by (intro exI[of _ "r # rs'"]) simp
qed

lemma analyze_loop_ok:
  "\<forall>item \<in> set items. analyze_one c t item = Inr (f item) \<Longrightarrow>
     analyze_loop c t items acc = Inr (acc @ map f items)"
  by (induction items arbitrary: acc) simp_all

text \<open>
  The records of \<^verbatim>\<open>analyze_requests\<close> when every URL has a sample and the total time is
  not zero: one record for each entry of the sample set, in its order, with the fields
  of \<open>stats_of\<close>.
\<close>

lemma analyze_requests_ok:
  assumes "\<forall>(u, times) \<in> set m. times \<noteq> []" and "total_time_of m \<noteq> 0"
  shows "analyze_requests m = Inr (map (stats_of m) m)"
proof -
  have c: "total_count_of m \<noteq> 0" if "item \<in> set m" for item
  proof -
    obtain u times where i: "item = (u, times)" by (cases item)
    with that assms(1) have "0 < length times" by auto
    moreover from that i have "length times \<in> set (map (\<lambda>(u, times). length times) m)"
      by force
    then have "length times \<le> total_count_of m"
      unfolding total_count_of_def by (intro member_le_sum_list) simp_all
    ultimately show ?thesis by linarith
  qed
  have "\<forall>item \<in> set m. analyze_one (total_count_of m) (total_time_of m) item = Inr (stats_of m item)"
  proof
    fix item assume im: "item \<in> set m"
    obtain u times where i: "item = (u, times)" by (cases item)
    with im assms(1) have "times \<noteq> []" by auto
    from analyze_one_ok[OF this c[OF im] assms(2)]
    show "analyze_one (total_count_of m) (total_time_of m) item = Inr (stats_of m item)"
      by (simp add: i stats_of_def)
  qed
  from analyze_loop_ok[OF this, of "[]"] show ?thesis
    by (simp add: analyze_requests_def totals_eq)
qed

lemma analyze_requests_Inr:
  assumes "analyze_requests m = Inr rs" and "m \<noteq> []"
  shows "(\<forall>(u, times) \<in> set m. times \<noteq> []) \<and> total_time_of m \<noteq> 0 \<and> rs = map (stats_of m) m"
proof -
  from assms(1) have l: "analyze_loop (total_count_of m) (total_time_of m) m [] = Inr rs"
    by (simp add: analyze_requests_def totals_eq)
  from analyze_loop_Inr[OF l] obtain rs' where
    rs': "map Inr rs' = map (analyze_one (total_count_of m) (total_time_of m)) m" by auto
  have ok: "times \<noteq> [] \<and> total_time_of m \<noteq> 0" if "(u, times) \<in> set m" for u times
  proof -
    from that obtain i where "i < length m" "m ! i = (u, times)" by (auto simp: in_set_conv_nth)
    with rs' have "analyze_one (total_count_of m) (total_time_of m) (u, times) = Inr (rs' ! i)"
      by (metis length_map nth_map)
    from analyze_one_Inr[OF this] show ?thesis by simp
  qed
  from assms(2) obtain u times where "(u, times) \<in> set m" by (cases m) auto
  with ok have t: "total_time_of m \<noteq> 0" by blast
  from ok have ne: "\<forall>(u, times) \<in> set m. times \<noteq> []" by auto
  from analyze_requests_ok[OF ne t] assms(1) show ?thesis using ne t by simp
qed


lemma round_half_even_err: "\<bar>of_int (round_half_even y) - y\<bar> \<le> 1 / 2"
proof -
  have "of_int \<lfloor>y\<rfloor> \<le> y" "y < of_int \<lfloor>y\<rfloor> + 1" by linarith+
  then show ?thesis
    by (auto simp: round_half_even_def Let_def)
qed

lemma round_half_even_range:
  assumes "0 \<le> y" "y \<le> of_int N"
  shows "0 \<le> round_half_even y \<and> round_half_even y \<le> N"
proof -
  have f0: "0 \<le> \<lfloor>y\<rfloor>" using assms(1) by simp
  have fN: "\<lfloor>y\<rfloor> \<le> N" using floor_mono[OF assms(2)] by simp
  show ?thesis
  proof (cases "\<lfloor>y\<rfloor> = N")
    case True
    then have "of_int N \<le> y" by (metis of_int_floor_le)
    with assms(2) have "y = of_int N" by simp
    then show ?thesis using f0 by (simp add: round_half_even_def)
  next
    case False
    with fN have "\<lfloor>y\<rfloor> + 1 \<le> N" by simp
    with f0 show ?thesis by (auto simp: round_half_even_def Let_def)
  qed
qed

lemma py_round_err: "\<bar>py_round x 3 - x\<bar> \<le> 1 / 2000"
proof -
  let ?r = "rat_of_int (round_half_even (x * 1000))"
  have e: "\<bar>?r - x * 1000\<bar> \<le> 1 / 2"
    by (rule round_half_even_err)
  have eq: "py_round x 3 - x = (?r - x * 1000) / 1000"
    by (simp add: py_round_def diff_divide_distrib)
  have "\<bar>(?r - x * 1000) / 1000\<bar> = \<bar>?r - x * 1000\<bar> / 1000"
    by simp
  with eq have "\<bar>py_round x 3 - x\<bar> = \<bar>?r - x * 1000\<bar> / 1000"
    by (simp only:)
  also from e have "\<dots> \<le> (1 / 2) / 1000"
    by (intro divide_right_mono) simp_all
  finally show ?thesis by simp
qed

lemma py_round_range:
  assumes "0 \<le> x" "x \<le> 100"
  shows "0 \<le> py_round x 3 \<and> py_round x 3 \<le> 100"
proof -
  have "0 \<le> x * 1000" "x * 1000 \<le> of_int 100000" using assms by simp_all
  from round_half_even_range[OF this]
  have "0 \<le> round_half_even (x * 1000)" "round_half_even (x * 1000) \<le> 100000" by simp_all
  then have "(0::rat) \<le> of_int (round_half_even (x * 1000))"
    "(of_int (round_half_even (x * 1000)) :: rat) \<le> of_int 100000"
    by (simp, subst of_int_le_iff, simp)
  then show ?thesis by (simp add: py_round_def)
qed

lemma sum_list_round_err:
  "\<bar>sum_list (map (\<lambda>i. py_round (f i) 3) xs) - sum_list (map f xs)\<bar> \<le> of_nat (length xs) / 2000"
proof (induction xs)
  case Nil
  then show ?case by simp
next
  case (Cons x xs)
  let ?A = "sum_list (map (\<lambda>i. py_round (f i) 3) xs)"
  let ?B = "sum_list (map f xs)"
  have 1: "\<bar>py_round (f x) 3 - f x\<bar> \<le> 1 / 2000" by (rule py_round_err)
  have 2: "\<bar>(py_round (f x) 3 + ?A) - (f x + ?B)\<bar> \<le> \<bar>py_round (f x) 3 - f x\<bar> + \<bar>?A - ?B\<bar>"
    by arith
  have 3: "rat_of_nat (length (x # xs)) / 2000 = 1 / 2000 + rat_of_nat (length xs) / 2000"
    by (simp add: add_divide_distrib)
  from 1 2 Cons.IH show ?case
    unfolding 3 by simp
qed

lemma sum_list_scale:
  "sum_list (map (\<lambda>i. c * f i / d) xs) = c * sum_list (map f xs) / d" for c d :: rat
  by (induction xs) (simp_all add: field_simps add_divide_distrib)

lemma of_nat_sum_list: "(of_nat (sum_list (map g xs)) :: rat) = sum_list (map (\<lambda>i. of_nat (g i)) xs)"
  by (induction xs) simp_all

lemma member_le_sum_list_rat:
  "\<forall>x \<in> set xs. 0 \<le> x \<Longrightarrow> y \<in> set xs \<Longrightarrow> y \<le> sum_list xs" for y :: rat
proof (induction xs)
  case Nil
  then show ?case by simp
next
  case (Cons x xs)
  then have "0 \<le> sum_list xs" by (simp add: sum_list_nonneg)
  with Cons show ?case by auto
qed

text \<open>
  Claim C6, as the code has it. Whenever \<^verbatim>\<open>analyze_requests\<close> returns records for a
  sample set that is not empty and whose samples are not negative, every \<^verbatim>\<open>count_perc\<close>
  and every \<^verbatim>\<open>time_perc\<close> lies between 0 and 100, and the sum of each over the records
  differs from 100 by at most 0.0005 for each record: every percentage is rounded on
  its own, so the error of the sum grows with the number of records.
\<close>

theorem percentages_in_range_and_sum:
  assumes "analyze_requests m = Inr rs" and "m \<noteq> []"
    and "\<forall>(u, times) \<in> set m. \<forall>t \<in> set times. 0 \<le> t"
  shows "(\<forall>r \<in> set rs. 0 \<le> count_perc r \<and> count_perc r \<le> 100
                      \<and> 0 \<le> time_perc r \<and> time_perc r \<le> 100)
       \<and> \<bar>sum_list (map count_perc rs) - 100\<bar> \<le> of_nat (length rs) / 2000
       \<and> \<bar>sum_list (map time_perc rs) - 100\<bar> \<le> of_nat (length rs) / 2000"
proof -
  from analyze_requests_Inr[OF assms(1,2)]
  have ne: "\<forall>(u, times) \<in> set m. times \<noteq> []" and tt: "total_time_of m \<noteq> 0"
    and rs: "rs = map (stats_of m) m" by simp_all
  let ?C = "rat_of_nat (total_count_of m)"
  let ?T = "total_time_of m"
  have sums_nonneg: "\<forall>x \<in> set (map (\<lambda>(u, times). sum_list times) m). 0 \<le> x"
    using assms(3) by (auto intro!: sum_list_nonneg)
  have "0 \<le> ?T"
    using sums_nonneg unfolding total_time_of_def by (intro sum_list_nonneg) blast
  with tt have Tpos: "0 < ?T" by simp
  from assms(2) ne have "total_count_of m \<noteq> 0"
    by (cases m) (auto simp: total_count_of_def)
  then have Cpos: "0 < ?C" by simp
  have item: "0 \<le> count_perc (stats_of m item) \<and> count_perc (stats_of m item) \<le> 100
      \<and> 0 \<le> time_perc (stats_of m item) \<and> time_perc (stats_of m item) \<le> 100"
    if im: "item \<in> set m" for item
  proof -
    obtain u times where i: "item = (u, times)" by (cases item)
    from im i have "length times \<in> set (map (\<lambda>(u, times). length times) m)" by force
    then have "length times \<le> total_count_of m"
      unfolding total_count_of_def by (intro member_le_sum_list) simp_all
    then have "rat_of_nat (length times) \<le> ?C" by simp
    with Cpos have c: "0 \<le> 100 * rat_of_nat (length times) / ?C"
      "100 * rat_of_nat (length times) / ?C \<le> 100"
      by (simp_all add: field_simps)
    from im i have mem: "sum_list times \<in> set (map (\<lambda>(u, times). sum_list times) m)" by force
    have "sum_list times \<le> ?T"
      unfolding total_time_of_def by (rule member_le_sum_list_rat[OF sums_nonneg mem])
    moreover from sums_nonneg mem have "0 \<le> sum_list times" by blast
    ultimately have "sum_list times \<le> ?T" "0 \<le> sum_list times" by simp_all
    with Tpos have t: "0 \<le> 100 * sum_list times / ?T" "100 * sum_list times / ?T \<le> 100"
      by (simp_all add: field_simps)
    from py_round_range[OF c] py_round_range[OF t] show ?thesis
      by (simp add: i stats_of_def)
  qed
  have cp: "map count_perc rs
      = map (\<lambda>item. py_round (100 * rat_of_nat (length (snd item)) / ?C) 3) m"
    by (simp add: rs stats_of_def case_prod_unfold)
  have tp: "map time_perc rs
      = map (\<lambda>item. py_round (100 * sum_list (snd item) / ?T) 3) m"
    by (simp add: rs stats_of_def case_prod_unfold)
  have c100: "sum_list (map (\<lambda>item. 100 * rat_of_nat (length (snd item)) / ?C) m) = 100"
    using Cpos by (simp add: sum_list_scale total_count_of_def of_nat_sum_list case_prod_unfold)
  have t100: "sum_list (map (\<lambda>item. 100 * sum_list (snd item) / ?T) m) = 100"
    using Tpos by (simp add: sum_list_scale total_time_of_def case_prod_unfold)
  have len: "length rs = length m" by (simp add: rs)
  from sum_list_round_err[of "\<lambda>item. 100 * rat_of_nat (length (snd item)) / ?C" m]
  have 1: "\<bar>sum_list (map count_perc rs) - 100\<bar> \<le> of_nat (length rs) / 2000"
    by (simp only: cp c100 len)
  from sum_list_round_err[of "\<lambda>item. 100 * sum_list (snd item) / ?T" m]
  have 2: "\<bar>sum_list (map time_perc rs) - 100\<bar> \<le> of_nat (length rs) / 2000"
    by (simp only: tp t100 len)
  from item 1 2 show ?thesis by (simp add: rs)
qed

theorem percentages_in_range_and_sum_witness:
  "analyze_requests [(''/a'', [1]), (''/b'', [1]), (''/c'', [1])]
     = Inr [\<lparr>url = ''/a'', count = 1, count_perc = 33333 / 1000, time_sum = 1,
              time_perc = 33333 / 1000, time_avg = 1, time_max = 1, time_med = 1\<rparr>,
            \<lparr>url = ''/b'', count = 1, count_perc = 33333 / 1000, time_sum = 1,
              time_perc = 33333 / 1000, time_avg = 1, time_max = 1, time_med = 1\<rparr>,
            \<lparr>url = ''/c'', count = 1, count_perc = 33333 / 1000, time_sum = 1,
              time_perc = 33333 / 1000, time_avg = 1, time_max = 1, time_med = 1\<rparr>]
   \<and> \<bar>(33333 / 1000 + 33333 / 1000 + 33333 / 1000 :: rat) - 100\<bar> \<le> 3 / 2000"
proof -
  let ?m = "[(''/a'', [1]), (''/b'', [1]), (''/c'', [1 :: rat])]"
  let ?rs = "[\<lparr>url = ''/a'', count = 1, count_perc = 33333 / 1000, time_sum = 1,
              time_perc = 33333 / 1000, time_avg = 1, time_max = 1, time_med = 1\<rparr>,
            \<lparr>url = ''/b'', count = 1, count_perc = 33333 / 1000, time_sum = 1,
              time_perc = 33333 / 1000, time_avg = 1, time_max = 1, time_med = 1\<rparr>,
            \<lparr>url = ''/c'', count = 1, count_perc = 33333 / 1000, time_sum = 1,
              time_perc = 33333 / 1000, time_avg = 1, time_max = 1, time_med = 1\<rparr>]"
  have a: "analyze_requests ?m = Inr ?rs" by code_simp
  have n: "?m \<noteq> []" by simp
  have h: "\<forall>(u, times) \<in> set ?m. \<forall>t \<in> set times. 0 \<le> t" by simp
  from percentages_in_range_and_sum[OF a n h] a show ?thesis by simp
qed

text \<open>
  Claim C6, as it is stated, with the tolerance of a rounding to three decimal digits
  read as one unit of the third digit, 0.001. Seven URLs with one sample of one second
  each get 14.286 per cent each, and both sums are 100.002.
\<close>

theorem percentage_sums_counterexample:
  "perc_sums (analyze_requests
       [(''/a'', [1]), (''/b'', [1]), (''/c'', [1]), (''/d'', [1]),
        (''/e'', [1]), (''/f'', [1]), (''/g'', [1])])
     = Inr (100002 / 1000, 100002 / 1000)
   \<and> \<not> \<bar>(100002 / 1000 :: rat) - 100\<bar> \<le> 1 / 1000"
proof -
  have "perc_sums (analyze_requests
       [(''/a'', [1]), (''/b'', [1]), (''/c'', [1]), (''/d'', [1]),
        (''/e'', [1]), (''/f'', [1]), (''/g'', [1])])
     = Inr (100002 / 1000, 100002 / 1000)"
    by code_simp
  then show ?thesis by simp
qed

text \<open>
  Claim C1. The claim promises a record for every URL of every sample set that is not
  empty. A sample set whose samples are all zero has the total time zero, and
  \<^verbatim>\<open>analyze_requests\<close> divides by it: the call raises \<^verbatim>\<open>ZeroDivisionError\<close> and no record is
  produced. A log whose only line has the request time 0.000 reaches this through
  \<^verbatim>\<open>main\<close>. (For sample sets with a total time that is not zero, \<open>analyze_requests_ok\<close>
  gives the records the claim describes.)
\<close>

theorem analyze_requests_zero_total_time:
  "analyze_requests [(''/index.html'', [0])] = Inl ZeroDivisionError
   \<and> main None [''1.2.3.4 - - [29/Jun/2017:03:50:44 +0300] \"GET /index.html HTTP/1.1\" 200 5 \"-\" \"-\" \"-\" \"-\" \"-\" 0.000'']
       = Inl ZeroDivisionError"
  by code_simp

section \<open>The fields of a matched line\<close>

lemma re_match_tok_ok:
  assumes "re_match ts s = Some segs"
  shows "list_all2 tok_ok ts segs \<and> (\<exists>rest. s = concat segs @ rest)"
proof -
  have "(\<lambda>(g, c, q) a. list_all (cls c) a \<and> quant_ok q a) = tok_ok"
    by (auto simp: tok_ok_def fun_eq_iff)
  with re_match_sound[OF assms] show ?thesis by simp
qed

lemma group_value_append:
  "length ts = length segs \<Longrightarrow>
     group_value (ts @ ts') (segs @ segs') n = group_value ts segs n @ group_value ts' segs' n"
  by (simp add: group_value_def)

lemma group_value_absent:
  "Some n \<notin> fst ` set ts \<Longrightarrow> group_value ts segs n = []"
proof -
  assume a: "Some n \<notin> fst ` set ts"
  have "filter (\<lambda>(t, a). fst t = Some n) (zip ts segs) = []"
    unfolding filter_empty_conv using a by (force dest!: set_zip_leftD)
  then show ?thesis by (simp add: group_value_def)
qed

lemma map_of_groupdict:
  "map_of (groupdict ts segs) n =
     (if Some n \<in> fst ` set ts then Some (group_value ts segs n) else None)"
proof -
  have s: "set (remdups (List.map_filter fst ts)) = {n. Some n \<in> fst ` set ts}"
    by (force simp: List.map_filter_def image_iff)
  have "map_of (map (\<lambda>n. (n, f n)) ns) n = (if n \<in> set ns then Some (f n) else None)"
    for f :: "string \<Rightarrow> string" and ns
    by (induction ns) auto
  from this[of "group_value ts segs" "remdups (List.map_filter fst ts)"] s
  show ?thesis by (simp add: groupdict_def)
qed

lemma split3:
  assumes "re_match ts s = Some segs" and "i + k \<le> length ts"
  shows "\<exists>sa sm sb rest. segs = sa @ sm @ sb \<and> s = concat sa @ concat sm @ concat sb @ rest
           \<and> length sa = i \<and> list_all2 tok_ok (take k (drop i ts)) sm
           \<and> length sb = length (drop (i + k) ts)"
proof -
  from re_match_tok_ok[OF assms(1)] obtain rest where
    l: "list_all2 tok_ok ts segs" and s: "s = concat segs @ rest" by blast
  from l have len: "length segs = length ts" by (simp add: list_all2_lengthD)
  let ?sa = "take i segs" and ?sm = "take k (drop i segs)" and ?sb = "drop (i + k) segs"
  have 1: "segs = ?sa @ ?sm @ ?sb"
    by (metis append_take_drop_id drop_drop add.commute)
  have 2: "list_all2 tok_ok (take k (drop i ts)) ?sm"
    using l by (intro list_all2_takeI list_all2_dropI)
  have 3: "s = concat ?sa @ concat ?sm @ concat ?sb @ rest"
    using s 1 by (metis concat_append append.assoc)
  from 1 2 3 len assms(2) show ?thesis
    by (intro exI[of _ ?sa] exI[of _ ?sm] exI[of _ ?sb] exI[of _ rest]) simp
qed

lemma group_value_split3:
  assumes "length sa = i" "length sm = k" "i + k \<le> length ts"
    and "Some n \<notin> fst ` set (take i ts)" "Some n \<notin> fst ` set (drop (i + k) ts)"
  shows "group_value ts (sa @ sm @ sb) n = group_value (take k (drop i ts)) sm n"
proof -
  have ts: "ts = take i ts @ take k (drop i ts) @ drop (i + k) ts"
    by (metis append_take_drop_id drop_drop add.commute)
  have "group_value (take i ts @ take k (drop i ts) @ drop (i + k) ts) (sa @ sm @ sb) n
      = group_value (take i ts) sa n @ group_value (take k (drop i ts)) sm n
        @ group_value (drop (i + k) ts) sb n"
    using assms(1-3) by (simp add: group_value_append)
  with ts assms(4,5) show ?thesis by (simp add: group_value_absent)
qed

lemma time_tokens:
  "take 5 (drop 40 log_pattern)
     = [(None, Lit CHR 0x22, One), (None, Space, One), (Some ''request_time'', Digit, Plus),
        (Some ''request_time'', Lit CHR ''.'', One), (Some ''request_time'', Digit, Plus)]"
  by (simp add: log_pattern_def)

lemma time_elsewhere:
  "Some ''request_time'' \<notin> fst ` set (take 40 log_pattern)"
  "Some ''request_time'' \<notin> fst ` set (drop (40 + 5) log_pattern)"
  by (simp_all add: log_pattern_def)

lemma names_present:
  "Some ''request_url'' \<in> fst ` set log_pattern" "Some ''request_time'' \<in> fst ` set log_pattern"
  by (simp_all add: log_pattern_def)

lemma length_log_pattern: "length log_pattern = 46"
  by (simp add: log_pattern_def)


lemma method_url_tokens:
  "take 5 (drop 10 log_pattern)
     = [(None, Lit CHR 0x22, One), (Some ''request_method'', AnyChar, LazyStar), (None, Space, One),
        (Some ''request_url'', AnyChar, LazyStar), (None, Space, One)]"
  by (simp add: log_pattern_def)

lemma method_url_elsewhere:
  "Some ''request_url'' \<notin> fst ` set (take 10 log_pattern)"
  "Some ''request_url'' \<notin> fst ` set (drop (10 + 5) log_pattern)"
  "Some ''request_method'' \<notin> fst ` set (take 10 log_pattern)"
  "Some ''request_method'' \<notin> fst ` set (drop (10 + 5) log_pattern)"
  "Some ''request_method'' \<in> fst ` set log_pattern"
  by (simp_all add: log_pattern_def)

lemma one_seg: "tok_ok (g, c, One) a \<longleftrightarrow> (\<exists>x. a = [x] \<and> cls c x)"
  by (cases a) (auto simp: tok_ok_def)

lemma log_match_url_field:
  assumes "log_match line = Some g"
  shows "\<exists>pre meth w1 u w2 post.
           line = pre @ [CHR 0x22] @ meth @ [w1] @ u @ [w2] @ post
           \<and> is_space w1 \<and> is_space w2 \<and> CHR 0x0A \<notin> set u
           \<and> map_of g ''request_method'' = Some meth
           \<and> map_of g ''request_url'' = Some u"
proof -
  from assms obtain segs where m: "re_match log_pattern line = Some segs"
    and g: "g = groupdict log_pattern segs"
    by (auto simp: log_match_def)
  have le: "10 + 5 \<le> length log_pattern" by (simp add: length_log_pattern)
  from split3[OF m le] obtain sa sm sb rest where
    segs: "segs = sa @ sm @ sb" and line: "line = concat sa @ concat sm @ concat sb @ rest"
    and la: "length sa = 10" and sm: "list_all2 tok_ok (take 5 (drop 10 log_pattern)) sm"
    by blast
  from sm obtain q meth x u y where sm_eq: "sm = [q, meth, x, u, y]"
    and q: "tok_ok (None, Lit CHR 0x22, One) q"
    and x: "tok_ok (None, Space, One) x"
    and u: "tok_ok (Some ''request_url'', AnyChar, LazyStar) u"
    and y: "tok_ok (None, Space, One) y"
    unfolding method_url_tokens by (auto simp: list_all2_Cons1)
  from q have q': "q = [CHR 0x22]" by (auto simp: one_seg)
  from x obtain w1 where w1: "x = [w1]" "is_space w1" by (auto simp: one_seg)
  from y obtain w2 where w2: "y = [w2]" "is_space w2" by (auto simp: one_seg)
  from u have nl: "CHR 0x0A \<notin> set u" by (auto simp: tok_ok_def list_all_iff)
  have lm: "length sm = 5" by (simp add: sm_eq)
  have gu: "group_value log_pattern segs ''request_url'' = u"
    unfolding segs group_value_split3[OF la lm le method_url_elsewhere(1,2)] method_url_tokens
    by (simp add: group_value_def sm_eq)
  have gm: "group_value log_pattern segs ''request_method'' = meth"
    unfolding segs group_value_split3[OF la lm le method_url_elsewhere(3,4)] method_url_tokens
    by (simp add: group_value_def sm_eq)
  have "line = concat sa @ [CHR 0x22] @ meth @ [w1] @ u @ [w2] @ (concat sb @ rest)"
    by (simp add: line sm_eq q' w1 w2)
  with w1 w2 nl gu gm show ?thesis
    unfolding g map_of_groupdict using names_present(1) method_url_elsewhere(5)
    by (intro exI[of _ "concat sa"] exI[of _ meth] exI[of _ w1] exI[of _ u] exI[of _ w2]
        exI[of _ "concat sb @ rest"]) simp
qed

lemma log_match_time_field:
  assumes "log_match line = Some g"
  shows "\<exists>pre w d1 d2 post.
           line = pre @ [CHR 0x22, w] @ d1 @ [CHR ''.''] @ d2 @ post
           \<and> is_space w \<and> d1 \<noteq> [] \<and> d2 \<noteq> [] \<and> list_all is_digit d1 \<and> list_all is_digit d2
           \<and> map_of g ''request_time'' = Some (d1 @ [CHR ''.''] @ d2)"
proof -
  from assms obtain segs where m: "re_match log_pattern line = Some segs"
    and g: "g = groupdict log_pattern segs"
    by (auto simp: log_match_def)
  have le: "40 + 5 \<le> length log_pattern" by (simp add: length_log_pattern)
  from split3[OF m le] obtain sa sm sb rest where
    segs: "segs = sa @ sm @ sb" and line: "line = concat sa @ concat sm @ concat sb @ rest"
    and la: "length sa = 40" and sm: "list_all2 tok_ok (take 5 (drop 40 log_pattern)) sm"
    by blast
  from sm obtain q x d1 p d2 where sm_eq: "sm = [q, x, d1, p, d2]"
    and q: "tok_ok (None, Lit CHR 0x22, One) q"
    and x: "tok_ok (None, Space, One) x"
    and d1: "tok_ok (Some ''request_time'', Digit, Plus) d1"
    and p: "tok_ok (Some ''request_time'', Lit CHR ''.'', One) p"
    and d2: "tok_ok (Some ''request_time'', Digit, Plus) d2"
    unfolding time_tokens by (auto simp: list_all2_Cons1)
  from q have q': "q = [CHR 0x22]" by (auto simp: one_seg)
  from p have p': "p = [CHR ''.'']" by (auto simp: one_seg)
  from x obtain w where w: "x = [w]" "is_space w" by (auto simp: one_seg)
  from d1 d2 have d: "d1 \<noteq> []" "d2 \<noteq> []" "list_all is_digit d1" "list_all is_digit d2"
    by (auto simp: tok_ok_def list_all_iff)
  have lm: "length sm = 5" by (simp add: sm_eq)
  have gt: "group_value log_pattern segs ''request_time'' = d1 @ [CHR ''.''] @ d2"
    unfolding segs group_value_split3[OF la lm le time_elsewhere] time_tokens
    by (simp add: group_value_def sm_eq p')
  have "line = concat sa @ [CHR 0x22, w] @ d1 @ [CHR ''.''] @ d2 @ (concat sb @ rest)"
    by (simp add: line sm_eq q' p' w)
  with w d gt show ?thesis
    unfolding g map_of_groupdict using names_present(2)
    by (intro exI[of _ "concat sa"] exI[of _ w] exI[of _ d1] exI[of _ d2]
        exI[of _ "concat sb @ rest"]) simp
qed

text \<open>
  Claim C7, as the code has it. A line is matched only if, somewhere in it, a double
  quote and one white-space character are followed by digits, a decimal point and
  digits; that text is the \<^verbatim>\<open>request_time\<close> of the record, whatever follows it. A line
  with a bare integer in that place is unmatched.
\<close>

theorem log_match_request_time:
  "(log_match line = Some g \<longrightarrow>
      (\<exists>pre w d1 d2 post.
           line = pre @ [CHR 0x22, w] @ d1 @ [CHR ''.''] @ d2 @ post
           \<and> is_space w \<and> d1 \<noteq> [] \<and> d2 \<noteq> [] \<and> list_all is_digit d1 \<and> list_all is_digit d2
           \<and> map_of g ''request_time'' = Some (d1 @ [CHR ''.''] @ d2)))
   \<and> log_match ''1.2.3.4 - - [29/Jun/2017:03:50:44 +0300] \"GET /a HTTP/1.1\" 200 5 \"-\" \"-\" \"-\" \"-\" \"-\" 767'' = None"
proof -
  have "log_match ''1.2.3.4 - - [29/Jun/2017:03:50:44 +0300] \"GET /a HTTP/1.1\" 200 5 \"-\" \"-\" \"-\" \"-\" \"-\" 767'' = None"
    by code_simp
  with log_match_time_field[of line g] show ?thesis by blast
qed

theorem log_match_request_time_witness:
  "log_match ''1.2.3.4 - - [29/Jun/2017:03:50:44 +0300] \"GET /a HTTP/1.1\" 200 5 \"-\" \"-\" \"-\" \"-\" \"-\" 0.767''
     = Some [(''remote_addr'', ''1.2.3.4''), (''remote_user'', ''-''), (''http_x_real_ip'', ''-''),
             (''time_local'', ''29/Jun/2017:03:50:44 +0300''), (''request_method'', ''GET''),
             (''request_url'', ''/a''), (''request_protocol'', ''HTTP/1.1''), (''status'', ''200''),
             (''body_bytes_sent'', ''5''), (''http_referer'', ''-''), (''http_user_agent'', ''-''),
             (''http_x_forwarded_for'', ''-''), (''http_X_REQUEST_ID'', ''-''),
             (''http_X_RB_USER'', ''-''), (''request_time'', ''0.767'')]
   \<and> (\<exists>pre w d1 d2 post.
         ''1.2.3.4 - - [29/Jun/2017:03:50:44 +0300] \"GET /a HTTP/1.1\" 200 5 \"-\" \"-\" \"-\" \"-\" \"-\" 0.767''
            = pre @ [CHR 0x22, w] @ d1 @ [CHR ''.''] @ d2 @ post
         \<and> is_space w \<and> d1 \<noteq> [] \<and> d2 \<noteq> [] \<and> list_all is_digit d1 \<and> list_all is_digit d2
         \<and> ''0.767'' = d1 @ [CHR ''.''] @ d2)"
proof -
  let ?l = "''1.2.3.4 - - [29/Jun/2017:03:50:44 +0300] \"GET /a HTTP/1.1\" 200 5 \"-\" \"-\" \"-\" \"-\" \"-\" 0.767''"
  let ?g = "[(''remote_addr'', ''1.2.3.4''), (''remote_user'', ''-''), (''http_x_real_ip'', ''-''),
             (''time_local'', ''29/Jun/2017:03:50:44 +0300''), (''request_method'', ''GET''),
             (''request_url'', ''/a''), (''request_protocol'', ''HTTP/1.1''), (''status'', ''200''),
             (''body_bytes_sent'', ''5''), (''http_referer'', ''-''), (''http_user_agent'', ''-''),
             (''http_x_forwarded_for'', ''-''), (''http_X_REQUEST_ID'', ''-''),
             (''http_X_RB_USER'', ''-''), (''request_time'', ''0.767'')]"
  have h: "log_match ?l = Some ?g" by code_simp
  have t: "map_of ?g ''request_time'' = Some ''0.767''" by simp
  from log_match_request_time[of ?l ?g] h have
    "\<exists>pre w d1 d2 post. ?l = pre @ [CHR 0x22, w] @ d1 @ [CHR ''.''] @ d2 @ post
         \<and> is_space w \<and> d1 \<noteq> [] \<and> d2 \<noteq> [] \<and> list_all is_digit d1 \<and> list_all is_digit d2
         \<and> map_of ?g ''request_time'' = Some (d1 @ [CHR ''.''] @ d2)"
    by blast
  then have "\<exists>pre w d1 d2 post. ?l = pre @ [CHR 0x22, w] @ d1 @ [CHR ''.''] @ d2 @ post
         \<and> is_space w \<and> d1 \<noteq> [] \<and> d2 \<noteq> [] \<and> list_all is_digit d1 \<and> list_all is_digit d2
         \<and> ''0.767'' = d1 @ [CHR ''.''] @ d2"
    unfolding t by (simp only: option.inject)
  with h show ?thesis by (simp only: simp_thms)
qed

text \<open>
  Claim C7, as it is stated. The line below ends in the field \<^verbatim>\<open>1.5e3\<close>, which is not of
  the form \<^verbatim>\<open>\d+\.\d+\<close>; the line is matched all the same, with the request time 1.5.
\<close>

theorem request_time_form_counterexample:
  "trailing_field ''1.2.3.4 - - [29/Jun/2017:03:50:44 +0300] \"GET /a HTTP/1.1\" 200 5 \"-\" \"-\" \"-\" \"-\" \"-\" 1.5e3''
     = ''1.5e3''
   \<and> \<not> is_decimal_form ''1.5e3''
   \<and> log_match ''1.2.3.4 - - [29/Jun/2017:03:50:44 +0300] \"GET /a HTTP/1.1\" 200 5 \"-\" \"-\" \"-\" \"-\" \"-\" 1.5e3''
     = Some [(''remote_addr'', ''1.2.3.4''), (''remote_user'', ''-''), (''http_x_real_ip'', ''-''),
             (''time_local'', ''29/Jun/2017:03:50:44 +0300''), (''request_method'', ''GET''),
             (''request_url'', ''/a''), (''request_protocol'', ''HTTP/1.1''), (''status'', ''200''),
             (''body_bytes_sent'', ''5''), (''http_referer'', ''-''), (''http_user_agent'', ''-''),
             (''http_x_forwarded_for'', ''-''), (''http_X_REQUEST_ID'', ''-''),
             (''http_X_RB_USER'', ''-''), (''request_time'', ''1.5'')]"
  by code_simp

text \<open>
  Claim C8, as the code has it. In a matched line the \<^verbatim>\<open>request_url\<close> is the text between
  the white-space character that ends \<^verbatim>\<open>request_method\<close> and the next white-space
  character the match uses; it holds no line feed and it may be empty, which it is when
  these two white-space characters are adjacent.
\<close>

theorem log_match_request_url:
  "log_match line = Some g \<Longrightarrow>
     \<exists>pre meth w1 u w2 post.
           line = pre @ [CHR 0x22] @ meth @ [w1] @ u @ [w2] @ post
           \<and> is_space w1 \<and> is_space w2 \<and> CHR 0x0A \<notin> set u
           \<and> map_of g ''request_method'' = Some meth
           \<and> map_of g ''request_url'' = Some u"
  by (rule log_match_url_field)

theorem log_match_request_url_witness:
  "log_match ''1.2.3.4 - - [29/Jun/2017:03:50:44 +0300] \"GET /a HTTP/1.1\" 200 5 \"-\" \"-\" \"-\" \"-\" \"-\" 0.767''
     = Some [(''remote_addr'', ''1.2.3.4''), (''remote_user'', ''-''), (''http_x_real_ip'', ''-''),
             (''time_local'', ''29/Jun/2017:03:50:44 +0300''), (''request_method'', ''GET''),
             (''request_url'', ''/a''), (''request_protocol'', ''HTTP/1.1''), (''status'', ''200''),
             (''body_bytes_sent'', ''5''), (''http_referer'', ''-''), (''http_user_agent'', ''-''),
             (''http_x_forwarded_for'', ''-''), (''http_X_REQUEST_ID'', ''-''),
             (''http_X_RB_USER'', ''-''), (''request_time'', ''0.767'')]
   \<and> (\<exists>pre w1 w2 post.
         ''1.2.3.4 - - [29/Jun/2017:03:50:44 +0300] \"GET /a HTTP/1.1\" 200 5 \"-\" \"-\" \"-\" \"-\" \"-\" 0.767''
            = pre @ [CHR 0x22] @ ''GET'' @ [w1] @ ''/a'' @ [w2] @ post
         \<and> is_space w1 \<and> is_space w2)"
proof -
  let ?l = "''1.2.3.4 - - [29/Jun/2017:03:50:44 +0300] \"GET /a HTTP/1.1\" 200 5 \"-\" \"-\" \"-\" \"-\" \"-\" 0.767''"
  let ?g = "[(''remote_addr'', ''1.2.3.4''), (''remote_user'', ''-''), (''http_x_real_ip'', ''-''),
             (''time_local'', ''29/Jun/2017:03:50:44 +0300''), (''request_method'', ''GET''),
             (''request_url'', ''/a''), (''request_protocol'', ''HTTP/1.1''), (''status'', ''200''),
             (''body_bytes_sent'', ''5''), (''http_referer'', ''-''), (''http_user_agent'', ''-''),
             (''http_x_forwarded_for'', ''-''), (''http_X_REQUEST_ID'', ''-''),
             (''http_X_RB_USER'', ''-''), (''request_time'', ''0.767'')]"
  have h: "log_match ?l = Some ?g" by code_simp
  have t: "map_of ?g ''request_url'' = Some ''/a''" "map_of ?g ''request_method'' = Some ''GET''"
    by simp_all
  from log_match_request_url[OF h] obtain pre meth w1 u w2 post where
    d: "?l = pre @ [CHR 0x22] @ meth @ [w1] @ u @ [w2] @ post" "is_space w1" "is_space w2"
    and f: "map_of ?g ''request_method'' = Some meth" "map_of ?g ''request_url'' = Some u"
    by blast
  from f have "meth = ''GET''" "u = ''/a''" unfolding t by (simp_all only: option.inject)
  with d have "\<exists>pre w1 w2 post. ?l = pre @ [CHR 0x22] @ ''GET'' @ [w1] @ ''/a'' @ [w2] @ post
         \<and> is_space w1 \<and> is_space w2"
    by blast
  with h show ?thesis by (simp only: simp_thms)
qed

text \<open>
  Claim C8, as it is stated. A request line with two spaces after \<^verbatim>\<open>GET\<close> is matched,
  and its \<^verbatim>\<open>request_url\<close> is the empty string.
\<close>

theorem request_url_empty_counterexample:
  "log_match ''1.2.3.4 - - [29/Jun/2017:03:50:44 +0300] \"GET  HTTP/1.1\" 400 5 \"-\" \"-\" \"-\" \"-\" \"-\" 0.767''
     = Some [(''remote_addr'', ''1.2.3.4''), (''remote_user'', ''-''), (''http_x_real_ip'', ''-''),
             (''time_local'', ''29/Jun/2017:03:50:44 +0300''), (''request_method'', ''GET''),
             (''request_url'', []), (''request_protocol'', ''HTTP/1.1''), (''status'', ''400''),
             (''body_bytes_sent'', ''5''), (''http_referer'', ''-''), (''http_user_agent'', ''-''),
             (''http_x_forwarded_for'', ''-''), (''http_X_REQUEST_ID'', ''-''),
             (''http_X_RB_USER'', ''-''), (''request_time'', ''0.767'')]"
  by code_simp

section \<open>The threshold of the run\<close>

lemma py_float_decimal:
  assumes "list_all is_digit d1" "list_all is_digit d2" "d2 \<noteq> []"
  shows "\<exists>t. py_float (d1 @ [CHR ''.''] @ d2) = Inr t"
proof -
  have nd: "\<not> is_digit CHR ''.''" by (simp add: is_digit_def)
  from assms(1) have all: "\<forall>x \<in> set d1. is_digit x" by (simp add: list_all_iff)
  have tw: "takeWhile is_digit (d1 @ [CHR ''.''] @ d2) = d1"
    using all nd by (simp add: takeWhile_append2)
  have dw: "dropWhile is_digit (d1 @ [CHR ''.''] @ d2) = CHR ''.'' # d2"
    using all nd by (simp add: dropWhile_append2)
  show ?thesis
    unfolding py_float_def tw dw Let_def using assms(2,3) by simp
qed

lemma log_match_record_ok:
  assumes "log_match line = Some g"
  shows "\<exists>u rt t. map_of g ''request_url'' = Some u \<and> map_of g ''request_time'' = Some rt
           \<and> py_float rt = Inr t"
proof -
  from log_match_url_field[OF assms] obtain u where u: "map_of g ''request_url'' = Some u"
    by blast
  from log_match_time_field[OF assms] obtain d1 d2 where
    d: "list_all is_digit d1" "list_all is_digit d2" "d2 \<noteq> []"
    and rt: "map_of g ''request_time'' = Some (d1 @ [CHR ''.''] @ d2)"
    by blast
  from py_float_decimal[OF d] u rt show ?thesis by blast
qed

lemma collect_loop_ok:
  "\<forall>g \<in> set gs. \<exists>line. log_match line = Some g \<Longrightarrow> \<exists>m. collect_loop gs acc = Inr m"
proof (induction gs arbitrary: acc)
  case Nil
  then show ?case by simp
next
  case (Cons g gs)
  from Cons.prems obtain line where "log_match line = Some g" by auto
  from log_match_record_ok[OF this] obtain u rt t where
    "map_of g ''request_url'' = Some u" "map_of g ''request_time'' = Some rt" "py_float rt = Inr t"
    by blast
  moreover from Cons.prems have "\<forall>g \<in> set gs. \<exists>line. log_match line = Some g" by simp
  from Cons.IH[OF this] have "\<exists>m. collect_loop gs (append_time acc u t) = Inr m" .
  ultimately show ?case by simp
qed

lemma matched_records_from_lines:
  "\<forall>g \<in> set (matched_records lines). \<exists>line. log_match line = Some g"
  by (auto simp: matched_records_def List.map_filter_def)

lemma collect_times_outcome:
  "\<exists>m. collect_times_for_urls (parse_lines lines)
         = (case snd (parse_lines lines) of Some e \<Rightarrow> Inl e | None \<Rightarrow> Inr m)"
proof -
  from collect_loop_ok[OF matched_records_from_lines] obtain m where
    "collect_loop (matched_records lines) [] = Inr m" by blast
  then show ?thesis
    by (auto simp: collect_times_for_urls_def parse_lines_yielded)
qed

lemma analyze_one_no_runtime: "analyze_one c t item \<noteq> Inl (RuntimeError s)"
  by (cases item)
     (auto simp: analyze_one_def py_max_def calc_median_def py_index_def Let_def
           split: list.splits sum.splits if_splits)

lemma analyze_loop_no_runtime: "analyze_loop c t items acc \<noteq> Inl (RuntimeError s)"
  by (induction items arbitrary: acc) (auto simp: analyze_one_no_runtime split: sum.splits)

lemma analyze_requests_no_runtime: "analyze_requests m \<noteq> Inl (RuntimeError s)"
  by (simp add: analyze_requests_def analyze_loop_no_runtime split: prod.splits)

text \<open>
  Claim C9, as the code has it. The threshold of the check is the default of
  \<^verbatim>\<open>limit_perc\<close>, 30, whatever the configuration holds: for every custom configuration, a
  run of \<^verbatim>\<open>main\<close> on a log with at least one line ends in the error of the tolerance
  check exactly when the percentage of unmatched lines is at least 30.
\<close>

theorem main_threshold_is_default:
  assumes "lines \<noteq> []"
  shows "(main custom_config lines = Inl (RuntimeError ''Too many missed lines. Aborted.'')
            \<longleftrightarrow> unmatched_perc lines \<ge> rat_of_int limit_perc_default)
       \<and> limit_perc_default = 30"
proof -
  obtain m where c: "collect_times_for_urls (parse_lines lines)
         = (case snd (parse_lines lines) of Some e \<Rightarrow> Inl e | None \<Rightarrow> Inr m)"
    using collect_times_outcome by blast
  show ?thesis
  proof (cases "unmatched_perc lines \<ge> 30")
    case True
    with parse_lines_outcome[OF assms] c show ?thesis
      by (simp add: main_def limit_perc_default_def)
  next
    case False
    with parse_lines_outcome[OF assms] c
    have "collect_times_for_urls (parse_lines lines) = Inr m" by simp
    then have "main custom_config lines \<noteq> Inl (RuntimeError ''Too many missed lines. Aborted.'')"
      using analyze_requests_no_runtime[of m]
      by (auto simp: main_def Let_def split: sum.splits option.splits jvalue.splits)
    with False show ?thesis by (simp add: limit_perc_default_def)
  qed
qed

theorem main_threshold_is_default_witness:
  "[''1.2.3.4 - - [29/Jun/2017:03:50:44 +0300] \"GET /a HTTP/1.1\" 200 5 \"-\" \"-\" \"-\" \"-\" \"-\" 0.767''] \<noteq> []
   \<and> unmatched_perc [''1.2.3.4 - - [29/Jun/2017:03:50:44 +0300] \"GET /a HTTP/1.1\" 200 5 \"-\" \"-\" \"-\" \"-\" \"-\" 0.767''] = 0
   \<and> main (Some [''MISSED_LINES_LIMIT'' \<mapsto> JInt 0])
        [''1.2.3.4 - - [29/Jun/2017:03:50:44 +0300] \"GET /a HTTP/1.1\" 200 5 \"-\" \"-\" \"-\" \"-\" \"-\" 0.767'']
       \<noteq> Inl (RuntimeError ''Too many missed lines. Aborted.'')"
proof -
  let ?l = "''1.2.3.4 - - [29/Jun/2017:03:50:44 +0300] \"GET /a HTTP/1.1\" 200 5 \"-\" \"-\" \"-\" \"-\" \"-\" 0.767''"
  have ne: "[?l] \<noteq> []" by simp
  have p: "unmatched_perc [?l] = 0" by code_simp
  from main_threshold_is_default[OF ne, of "Some [''MISSED_LINES_LIMIT'' \<mapsto> JInt 0]"] p
  show ?thesis by (simp add: limit_perc_default_def)
qed

text \<open>
  Claim C9, as it is stated. With a tolerance of 50 in the configuration and one
  unmatched line of three, 33.3 per cent, the run still ends in the error of the
  tolerance check: the check compares with 30. (\<^verbatim>\<open>main\<close> reads no tolerance from the
  configuration; the key of the example is an arbitrary one.)
\<close>

theorem configured_tolerance_counterexample:
  "unmatched_perc
      [''1.2.3.4 - - [29/Jun/2017:03:50:44 +0300] \"GET /a HTTP/1.1\" 200 5 \"-\" \"-\" \"-\" \"-\" \"-\" 0.767'',
       ''no log line'',
       ''1.2.3.4 - - [29/Jun/2017:03:50:45 +0300] \"GET /b HTTP/1.1\" 200 5 \"-\" \"-\" \"-\" \"-\" \"-\" 0.058'']
     = 100 / 3
   \<and> \<not> (100 / 3 :: rat) \<ge> 50
   \<and> main (Some [''MISSED_LINES_LIMIT'' \<mapsto> JInt 50])
      [''1.2.3.4 - - [29/Jun/2017:03:50:44 +0300] \"GET /a HTTP/1.1\" 200 5 \"-\" \"-\" \"-\" \"-\" \"-\" 0.767'',
       ''no log line'',
       ''1.2.3.4 - - [29/Jun/2017:03:50:45 +0300] \"GET /b HTTP/1.1\" 200 5 \"-\" \"-\" \"-\" \"-\" \"-\" 0.058'']
     = Inl (RuntimeError ''Too many missed lines. Aborted.'')"
  by code_simp

section \<open>The tolerance check in double precision\<close>
























end
